theory Spec2Isabelle
  imports Complex_Main
begin

section \<open>Errors\<close>

text \<open>
  The exceptions the modelled code paths can raise. \<open>ValueError\<close> is what
  \<open>FlashAttention\<close> raises itself; \<open>ZeroDivisionError\<close> is Python's \<open>//\<close> and \<open>%\<close>
  on a zero divisor; \<open>AssertionError\<close> is the \<open>assert\<close> of the sharded cache update;
  \<open>IndexError\<close> is JAX's refusal to index an axis of length zero; \<open>TypeError\<close> is the
  shape check of \<open>lax.dynamic_update_slice\<close> (an update longer than its operand) and of
  \<open>reshape\<close>; \<open>ShapeError\<close> stands for the shape checks of \<open>shard_map\<close> and of
  \<open>combine_masks\<close>. The code has no exception for an exhausted cache.
\<close>

datatype error =
  ValueError | ZeroDivisionError | AssertionError | IndexError | TypeError | ShapeError

section \<open>The key/value cache: \<open>FlaxAttentionModule._concatenate_to_cache\<close>\<close>

text \<open>
  The cached tensors have shape \<open>[batch, max_length, heads, head_dim]\<close> and every update
  of the method runs along axis 1 only, over the full extent of the other axes. A tensor
  is therefore a list along the sequence axis; an element of type \<open>'a\<close> is the
  \<open>[batch, heads, head_dim]\<close> slab at one position. The cursor \<open>cache_index\<close> is a JAX
  \<open>int32\<close> scalar: it is an \<open>int\<close> here, and every arithmetic operation on it wraps
  with \<open>wrap32\<close>.
\<close>

definition wrap32 :: "int \<Rightarrow> int" where
  "wrap32 x = (x + 2147483648) mod 4294967296 - 2147483648"

record 'a cache =
  cached_key :: "'a list"
  cached_value :: "'a list"
  cache_index :: int

text \<open>
  The fields of the model configuration the method reads: \<open>quantize_kv_cache\<close>,
  \<open>use_sharded_kv_caching\<close>, and \<open>mesh.shape["sp"]\<close>, the number of devices along the
  sequence-parallel mesh axis.
\<close>

record config =
  quantize_kv_cache :: bool
  use_sharded_kv_caching :: bool
  mesh_sp :: nat

text \<open>
  \<open>lax.dynamic_update_slice operand update (0, .., cur_index, 0, 0)\<close> along the sequence
  axis. JAX refuses an update longer than the operand, counts a negative start index from
  the end, and clamps the start so that the update lies inside the operand.
\<close>

definition dynamic_update_slice :: "'a list \<Rightarrow> 'a list \<Rightarrow> int \<Rightarrow> error + 'a list" where
  "dynamic_update_slice operand update i =
     (if length operand < length update then Inl TypeError
      else
        let d = int (length operand);
            j = (if i < 0 then wrap32 (i + d) else i);
            start = nat (max 0 (min j (d - int (length update))))
        in Inr (take start operand @ update @ drop (start + length update) operand))"

text \<open>
  \<open>pad_mask\<close>: \<open>jnp.arange(max_length) < cur_index + num_updated_cache_vectors\<close>, broadcast
  to \<open>num_updated_cache_vectors\<close> query rows. The mask of one batch entry is a list of query
  rows, each a list over the \<open>max_length\<close> key positions.
\<close>

definition pad_mask :: "nat \<Rightarrow> int \<Rightarrow> nat \<Rightarrow> bool list list" where
  "pad_mask max_length cur_index num_updated_cache_vectors =
     replicate num_updated_cache_vectors
       (map (\<lambda>i. int i < wrap32 (cur_index + int num_updated_cache_vectors)) [0..<max_length])"

text \<open>
  \<open>flax.linen.combine_masks\<close> is the elementwise conjunction of its masks. The callers
  pass the attention mask in the shape of the pad mask; any other shape is reported as
  the library's shape error (broadcasting of singleton axes is not modelled).
\<close>

definition combine_masks :: "bool list list \<Rightarrow> bool list list \<Rightarrow> error + bool list list" where
  "combine_masks pad attention_mask =
     (if map length pad = map length attention_mask
      then Inr (map2 (\<lambda>p m. map2 (\<lambda>a b. a \<and> b) p m) pad attention_mask)
      else Inl ShapeError)"

text \<open>
  The function \<open>fn\<close> that \<open>shard_map\<close> runs on every device of the \<open>sp\<close> axis:
  \<open>axis_index\<close> is the device's position, \<open>_cached_key\<close> and \<open>_cached_value\<close> are its
  local slices of the cache, \<open>_key\<close> and \<open>_value\<close> are replicated along the sequence
  axis. The leading underscore of the source's names is a prime here. \<open>lax.cond\<close> traces
  both branches, so the indexed update \<open>.at[:, _cur_index].set\<close> is built whatever the
  cursor is, and JAX refuses it on a local slice without positions.
\<close>

definition shard_fn ::
  "nat \<Rightarrow> nat \<Rightarrow> nat \<Rightarrow> 'a list \<Rightarrow> 'a list \<Rightarrow> 'a list \<Rightarrow> 'a list \<Rightarrow> int
     \<Rightarrow> error + ('a list \<times> 'a list)" where
  "shard_fn max_length sp axis_index cached_key' cached_value' key' value' cur_index' =
     (if \<not> (length key' = 1 \<and> length value' = 1) then Inl AssertionError
      else if sp = 0 then Inl ZeroDivisionError
      else if cached_key' = [] \<or> cached_value' = [] then Inl IndexError
      else
        let sp_size = max_length div sp;
            cur = wrap32 (cur_index' - wrap32 (int axis_index * int sp_size))
        in if 0 \<le> cur \<and> cur < int sp_size
           then Inr (cached_key'[nat cur := last key'], cached_value'[nat cur := last value'])
           else Inr (cached_key', cached_value'))"

text \<open>
  \<open>shard_map\<close> with the cache partitioned along the sequence axis over the \<open>sp\<close> devices:
  device \<open>p\<close> holds positions \<open>[p * sp_size, (p + 1) * sp_size)\<close>, every device runs
  \<open>fn\<close>, and the outputs are concatenated along the sequence axis. \<open>shard_map\<close> refuses an
  axis that the mesh does not divide evenly. The other axes of the mesh have one device.
\<close>

definition local_slice :: "nat \<Rightarrow> nat \<Rightarrow> 'a list \<Rightarrow> 'a list" where
  "local_slice sp_size p xs = take sp_size (drop (p * sp_size) xs)"

fun collect_shards :: "(error + ('a list \<times> 'a list)) list \<Rightarrow> error + ('a list \<times> 'a list)" where
  "collect_shards [] = Inr ([], [])"
| "collect_shards (r # rs) =
     (case r of
        Inl e \<Rightarrow> Inl e
      | Inr (k, v) \<Rightarrow>
          (case collect_shards rs of
             Inl e \<Rightarrow> Inl e
           | Inr (ks, vs) \<Rightarrow> Inr (k @ ks, v @ vs)))"

definition shard_map_fn ::
  "nat \<Rightarrow> 'a list \<Rightarrow> 'a list \<Rightarrow> 'a list \<Rightarrow> 'a list \<Rightarrow> int \<Rightarrow> error + ('a list \<times> 'a list)" where
  "shard_map_fn sp ck cv key_in value_in cur_index =
     (let max_length = length ck in
      if sp = 0 \<or> max_length mod sp \<noteq> 0 \<or> length cv mod sp \<noteq> 0 then Inl ShapeError
      else
        let sp_size = max_length div sp in
        collect_shards
          (map (\<lambda>p. shard_fn max_length sp p (local_slice sp_size p ck)
                       (local_slice (length cv div sp) p cv) key_in value_in cur_index)
               [0..<sp]))"

text \<open>
  The method itself. The module's cache variables are the state: \<open>None\<close> before they
  exist (\<open>is_initialized\<close> is false), in which case the call creates them from the shape
  of \<open>key\<close> and \<open>value\<close> and hands its arguments back. \<open>query_len\<close> is
  \<open>query_states.shape[1]\<close>. \<open>Array8Bit\<close> is not part of the sources: \<open>store8\<close> is what a
  tensor reads as after \<open>Array8Bit.quantize\<close>, and the cache fields hold the values as they
  are read back. The result is the new state and the returned
  \<open>(key, value, attention_mask)\<close>.
\<close>

definition concatenate_to_cache ::
  "config \<Rightarrow> ('a list \<Rightarrow> 'a list) \<Rightarrow> ('a::zero) cache option
     \<Rightarrow> 'a list \<Rightarrow> 'a list \<Rightarrow> nat \<Rightarrow> bool list list
     \<Rightarrow> error + ('a cache \<times> 'a list \<times> 'a list \<times> bool list list)" where
  "concatenate_to_cache cfg store8 st key_in value_in query_len attention_mask =
     (let do_quantize_kv_cache = quantize_kv_cache cfg;
          store = (if do_quantize_kv_cache then store8 else (\<lambda>x. x))
      in case st of
        None \<Rightarrow>
          Inr (\<lparr>cached_key = store (replicate (length key_in) 0),
                cached_value = store (replicate (length value_in) 0),
                cache_index = 0\<rparr>,
               key_in, value_in, attention_mask)
      | Some c \<Rightarrow>
         (let max_length = length (cached_key c);
              cur_index = cache_index c;
              updated =
                (if query_len = 1 \<and> use_sharded_kv_caching cfg \<and> \<not> do_quantize_kv_cache
                 then
                   (case shard_map_fn (mesh_sp cfg) (cached_key c) (cached_value c)
                           key_in value_in cur_index of
                      Inl e \<Rightarrow> Inl e
                    | Inr (k, v) \<Rightarrow> Inr (k, v, attention_mask))
                 else
                   (case dynamic_update_slice (cached_key c) key_in cur_index of
                      Inl e \<Rightarrow> Inl e
                    | Inr k \<Rightarrow>
                        (case dynamic_update_slice (cached_value c) value_in cur_index of
                           Inl e \<Rightarrow> Inl e
                         | Inr v \<Rightarrow>
                             (case combine_masks (pad_mask max_length cur_index query_len)
                                     attention_mask of
                                Inl e \<Rightarrow> Inl e
                              | Inr m \<Rightarrow> Inr (k, v, m)))))
          in case updated of
               Inl e \<Rightarrow> Inl e
             | Inr (k, v, m) \<Rightarrow>
                 Inr (\<lparr>cached_key = store k, cached_value = store v,
                       cache_index = wrap32 (cur_index + int query_len)\<rparr>,
                      k, v, m)))"

text \<open>
  The slot a decoding session starts from: the variables as the first call creates them
  for a key and a value of \<open>max_length\<close> positions.
\<close>

definition init_cache :: "config \<Rightarrow> ('a list \<Rightarrow> 'a list) \<Rightarrow> nat \<Rightarrow> ('a::zero) cache" where
  "init_cache cfg store8 max_length =
     (let store = (if quantize_kv_cache cfg then store8 else (\<lambda>x. x))
      in \<lparr>cached_key = store (replicate max_length 0),
          cached_value = store (replicate max_length 0),
          cache_index = 0\<rparr>)"

text \<open>
  What device \<open>p\<close> of the \<open>sp\<close> axis hands back for its slice of a cached tensor
  \<open>xs\<close>, when its local index is in the range of 32-bit arithmetic: the slice with the
  token written at the local offset if the cursor lies in the device's range, and the
  slice as it was otherwise.
\<close>

definition shard_result :: "nat \<Rightarrow> nat \<Rightarrow> 'a list \<Rightarrow> 'a \<Rightarrow> int \<Rightarrow> 'a list" where
  "shard_result sp_size p xs tok cur =
     (if int (p * sp_size) \<le> cur \<and> cur < int ((p + 1) * sp_size)
      then (local_slice sp_size p xs)[nat (cur - int (p * sp_size)) := tok]
      else local_slice sp_size p xs)"

text \<open>
  A decoding session: the calls of the method one after the other on the same slot, each
  call given as \<open>(key, value, query_len, attention_mask)\<close>. The first exception ends the
  session.
\<close>

fun appends ::
  "config \<Rightarrow> ('a list \<Rightarrow> 'a list) \<Rightarrow> ('a::zero) cache
     \<Rightarrow> ('a list \<times> 'a list \<times> nat \<times> bool list list) list \<Rightarrow> error + 'a cache" where
  "appends cfg store8 c [] = Inr c"
| "appends cfg store8 c ((k, v, n, m) # rest) =
     (case concatenate_to_cache cfg store8 (Some c) k v n m of
        Inl e \<Rightarrow> Inl e
      | Inr (c', out) \<Rightarrow> appends cfg store8 c' rest)"

text \<open>
  The tensor \<open>xs\<close> with the update \<open>u\<close> written from position \<open>i\<close> on.
\<close>

definition merged :: "'a list \<Rightarrow> 'a list \<Rightarrow> int \<Rightarrow> 'a list" where
  "merged xs u i = take (nat i) xs @ u @ drop (nat i + length u) xs"

text \<open>
  A call \<open>(key, value, query_len, attention_mask)\<close> is well shaped for a slot of \<open>L\<close>
  positions when key and value have \<open>query_len\<close> positions and the mask has \<open>query_len\<close>
  rows of \<open>L\<close> entries; \<open>new_tokens\<close> is the number of positions a list of calls
  appends.
\<close>

definition well_shaped :: "nat \<Rightarrow> 'a list \<times> 'a list \<times> nat \<times> bool list list \<Rightarrow> bool" where
  "well_shaped L call =
     (case call of (k, v, n, m) \<Rightarrow>
        length k = n \<and> length v = n \<and> length m = n \<and> list_all (\<lambda>row. length row = L) m)"

definition new_tokens :: "('a list \<times> 'a list \<times> nat \<times> bool list list) list \<Rightarrow> nat" where
  "new_tokens calls = sum_list (map (\<lambda>(k, v, n, m). n) calls)"

section \<open>The quantization codec: \<open>quantize_8bit\<close>\<close>

text \<open>
  One row (the last axis) of the input; its entries are real numbers, the finite values
  of the input's dtype. The floating-point arithmetic of the device is a parameter:
  \<open>rnd\<close> is the rounding of a \<open>float32\<close> result (the conversion of an entry or of a
  literal, a quotient, a product), \<open>astype_x\<close> is the conversion \<open>astype(x.dtype)\<close> of
  the scale to the dtype of the input, and \<open>nan_int8\<close> is the \<open>int8\<close> that the device
  makes of a NaN.
\<close>

record arith =
  rnd :: "real \<Rightarrow> real"
  astype_x :: "real \<Rightarrow> real"
  nan_int8 :: int

text \<open>\<open>jnp.round\<close> rounds a tie to the even neighbour.\<close>

definition jnp_round :: "real \<Rightarrow> int" where
  "jnp_round r =
     (let f = \<lfloor>r\<rfloor>; d = r - of_int f
      in if d < 1 / 2 then f else if 1 / 2 < d then f + 1 else if even f then f else f + 1)"

definition clip :: "int \<Rightarrow> int \<Rightarrow> int \<Rightarrow> int" where
  "clip x lo hi = min (max x lo) hi"

text \<open>
  \<open>jnp.amax\<close> has no value on an empty axis and raises. A division by a zero scale is
  no exception in floating-point arithmetic: \<open>1.0 / 0\<close> is infinite, its product with an
  entry is infinite with the sign of the entry, or NaN for a zero entry, and rounding and
  clipping leave 127, -128 or NaN. An entry enters the product converted to \<open>float32\<close>,
  as it enters the maximum.
\<close>

definition quantize_8bit :: "arith \<Rightarrow> real list \<Rightarrow> error + (int list \<times> real)" where
  "quantize_8bit A x =
     (if x = [] then Inl ValueError
      else
        let max_val = Max (set (map (\<lambda>e. \<bar>rnd A e\<bar>) x));
            max_val = max max_val (rnd A (1 / 100000));
            qscale = rnd A (max_val / 127);
            qweight =
              (if qscale = 0
               then map (\<lambda>e. if 0 < e then 127 else if e < 0 then - 128 else nan_int8 A) x
               else map (\<lambda>e. clip (jnp_round (rnd A (rnd A e * rnd A (1 / qscale)))) (- 128) 127) x)
        in Inr (qweight, astype_x A qscale))"

section \<open>The flash-attention dispatcher: \<open>FlashAttention\<close>\<close>

datatype Backend = GPU | TPU | CPU

datatype Platform = TRITON | PALLAS | JAX

record AttentionConfig =
  blocksize_q :: int
  blocksize_k :: int
  softmax_scale :: "real option"
  backend :: Backend
  platform :: Platform

text \<open>
  \<open>AttentionConfig._default_platform\<close> and \<open>__post_init__\<close>: a missing backend is the one
  JAX runs on (\<open>get_backend().platform\<close>, the first argument), a missing platform is the
  backend's default.
\<close>

fun default_platform :: "Backend \<Rightarrow> Platform" where
  "default_platform GPU = TRITON"
| "default_platform CPU = JAX"
| "default_platform TPU = PALLAS"

definition new_AttentionConfig ::
  "Backend \<Rightarrow> int \<Rightarrow> int \<Rightarrow> real option \<Rightarrow> Backend option \<Rightarrow> Platform option
     \<Rightarrow> AttentionConfig" where
  "new_AttentionConfig runtime bq bk scale b p =
     (let b' = (case b of None \<Rightarrow> runtime | Some x \<Rightarrow> x);
          p' = (case p of None \<Rightarrow> default_platform b' | Some y \<Rightarrow> y)
      in \<lparr>blocksize_q = bq, blocksize_k = bk, softmax_scale = scale,
          backend = b', platform = p'\<rparr>)"

definition valid_combinations :: "(Backend \<times> Platform) set" where
  "valid_combinations =
     {(GPU, TRITON), (GPU, PALLAS), (GPU, JAX), (CPU, JAX), (TPU, JAX), (TPU, PALLAS)}"

definition validate_config :: "AttentionConfig \<Rightarrow> error + unit" where
  "validate_config config =
     (if (backend config, platform config) \<notin> valid_combinations then Inl ValueError
      else Inr ())"

text \<open>
  \<open>FlashAttention.__init__\<close>: the object holds its configuration only, so a constructed
  dispatcher is the validated configuration.
\<close>

definition new_FlashAttention :: "Backend \<Rightarrow> AttentionConfig option \<Rightarrow> error + AttentionConfig" where
  "new_FlashAttention runtime config =
     (let cfg = (case config of
                   None \<Rightarrow> new_AttentionConfig runtime 128 128 None None None
                 | Some c \<Rightarrow> c)
      in case validate_config cfg of Inl e \<Rightarrow> Inl e | Inr u \<Rightarrow> Inr cfg)"

text \<open>
  A tensor of the dispatcher is a list along its head axis: \<open>query\<close>, \<open>key\<close> and
  \<open>value\<close> are \<open>[batch, seq, heads, dim]\<close> with elements of type \<open>'a\<close> for the
  \<open>[batch, seq, dim]\<close> slab of one head, \<open>bias\<close> is \<open>[batch, heads, q, k]\<close> with elements
  of type \<open>'b\<close>. \<open>einops.repeat\<close> with the pattern \<open>b s h d -> b s (h r) d\<close> puts the
  \<open>r\<close> copies of a head next to each other.
\<close>

definition repeat_heads :: "'a list \<Rightarrow> nat \<Rightarrow> 'a list" where
  "repeat_heads xs r = concat (map (replicate r) xs)"

definition repeat_kv_heads :: "'a list \<Rightarrow> 'a list \<Rightarrow> nat \<Rightarrow> 'a list \<times> 'a list" where
  "repeat_kv_heads key_in value_in num_reps =
     (repeat_heads key_in num_reps, repeat_heads value_in num_reps)"

definition handle_bias :: "'b list option \<Rightarrow> nat \<Rightarrow> nat \<Rightarrow> error + 'b list option" where
  "handle_bias bias num_q_heads num_kv_heads =
     (case bias of
        None \<Rightarrow> Inr None
      | Some b \<Rightarrow>
          if length b = num_q_heads then Inr (Some b)
          else if length b = num_kv_heads \<or> length b = 1
          then Inr (Some (repeat_heads b (num_q_heads div length b)))
          else Inl ValueError)"

text \<open>
  The kernels are not part of the sources. A call of the dispatcher ends in the call of
  one kernel, and the model returns that call: the kernel and the tensors handed to it.
  The softmax scale and the block sizes go to the kernel as the configuration has them.
\<close>

datatype kernel =
    triton_flash_mha_attn_2_gpu
  | triton_flash_gqa_attn_2_gpu
  | pallas_flash_mha_attn_2_gpu
  | pallas_flash_attention_tpu
  | jax_flash_attn_2_mu

record ('a, 'b) kernel_call =
  kernel_name :: kernel
  arg_query :: "'a list"
  arg_key :: "'a list"
  arg_value :: "'a list"
  arg_bias :: "'b list option"

text \<open>
  \<open>os.environ.get("FORCE_MHA", "false") in ["true", "1", "on"]\<close>, from the value of the
  environment variable (\<open>None\<close> when it is not set).
\<close>

definition force_mha :: "string option \<Rightarrow> bool" where
  "force_mha env =
     ((case env of None \<Rightarrow> ''false'' | Some s \<Rightarrow> s) \<in> set [''true'', ''1'', ''on''])"

definition compute_triton ::
  "string option \<Rightarrow> 'a list \<Rightarrow> 'a list \<Rightarrow> 'a list \<Rightarrow> 'b list option
     \<Rightarrow> ('a, 'b) kernel_call" where
  "compute_triton env query key_in value_in bias =
     (if length query = length key_in \<or> force_mha env
      then
        (case repeat_kv_heads key_in value_in (length query div length key_in) of
           (k, v) \<Rightarrow>
             \<lparr>kernel_name = triton_flash_mha_attn_2_gpu, arg_query = query, arg_key = k,
              arg_value = v, arg_bias = bias\<rparr>)
      else
        \<lparr>kernel_name = triton_flash_gqa_attn_2_gpu, arg_query = query, arg_key = key_in,
         arg_value = value_in, arg_bias = bias\<rparr>)"

definition compute_pallas ::
  "AttentionConfig \<Rightarrow> 'a list \<Rightarrow> 'a list \<Rightarrow> 'a list \<Rightarrow> 'b list option
     \<Rightarrow> ('a, 'b) kernel_call" where
  "compute_pallas config query key_in value_in bias =
     (case repeat_kv_heads key_in value_in (length query div length key_in) of
        (k, v) \<Rightarrow>
          if backend config = GPU
          then \<lparr>kernel_name = pallas_flash_mha_attn_2_gpu, arg_query = query, arg_key = k,
                arg_value = v, arg_bias = bias\<rparr>
          else \<lparr>kernel_name = pallas_flash_attention_tpu, arg_query = query, arg_key = k,
                arg_value = v, arg_bias = bias\<rparr>)"

definition compute_jax ::
  "'a list \<Rightarrow> 'a list \<Rightarrow> 'a list \<Rightarrow> 'b list option \<Rightarrow> ('a, 'b) kernel_call" where
  "compute_jax query key_in value_in bias =
     (case repeat_kv_heads key_in value_in (length query div length key_in) of
        (k, v) \<Rightarrow>
          \<lparr>kernel_name = jax_flash_attn_2_mu, arg_query = query, arg_key = k,
           arg_value = v, arg_bias = bias\<rparr>)"

text \<open>
  \<open>FlashAttention.__call__\<close>. Python's \<open>%\<close> raises on a tensor without key heads.
\<close>

definition FlashAttention_call ::
  "AttentionConfig \<Rightarrow> string option \<Rightarrow> 'a list \<Rightarrow> 'a list \<Rightarrow> 'a list \<Rightarrow> 'b list option
     \<Rightarrow> error + ('a, 'b) kernel_call" where
  "FlashAttention_call config env query key_in value_in bias =
     (let num_q_heads = length query; num_kv_heads = length key_in
      in if num_kv_heads = 0 then Inl ZeroDivisionError
         else if num_q_heads mod num_kv_heads \<noteq> 0 then Inl ValueError
         else
           (case handle_bias bias num_q_heads num_kv_heads of
              Inl e \<Rightarrow> Inl e
            | Inr bias' \<Rightarrow>
                (case platform config of
                   TRITON \<Rightarrow> Inr (compute_triton env query key_in value_in bias')
                 | PALLAS \<Rightarrow> Inr (compute_pallas config query key_in value_in bias')
                 | JAX \<Rightarrow> Inr (compute_jax query key_in value_in bias'))))"

section \<open>The splash strategy: \<open>SplashAttn.forward_tpu\<close>\<close>






section \<open>Properties of the key/value cache\<close>

subsection \<open>Auxiliary facts\<close>

lemma wrap32_id: "- 2147483648 \<le> x \<Longrightarrow> x < 2147483648 \<Longrightarrow> wrap32 x = x"
  by (simp add: wrap32_def)

lemma collect_shards_Inr:
  "collect_shards (map Inr ps) = Inr (concat (map fst ps), concat (map snd ps))"
  by (induction ps) (auto split: prod.splits)

lemma concat_equal_chunks:
  "\<forall>xs \<in> set xss. length xs = s \<Longrightarrow> p < length xss
     \<Longrightarrow> take s (drop (p * s) (concat xss)) = xss ! p"
proof (induction xss arbitrary: p)
  case Nil
  then show ?case by simp
next
  case (Cons xs xss)
  show ?case
  proof (cases p)
    case 0
    with Cons.prems show ?thesis by simp
  next
    case (Suc q)
    with Cons.prems have "q < length xss" by simp
    moreover from Cons.prems have "\<forall>ys \<in> set xss. length ys = s" by simp
    ultimately have "take s (drop (q * s) (concat xss)) = xss ! q" by (rule Cons.IH[rotated])
    moreover from Cons.prems have "length xs = s" by simp
    ultimately show ?thesis using Suc by (simp add: add.commute)
  qed
qed

lemma concat_chunks_length:
  "\<forall>xs \<in> set xss. length xs = s \<Longrightarrow> length (concat xss) = length xss * s"
  by (induction xss) simp_all

lemma concat_chunks_nth:
  assumes "\<forall>xs \<in> set xss. length xs = s" "p < length xss" "j < s"
  shows "concat xss ! (p * s + j) = xss ! p ! j"
proof -
  have "Suc p * s \<le> length xss * s" using assms(2) by (metis Suc_leI mult_le_mono1)
  then have len: "p * s + s \<le> length (concat xss)"
    using concat_chunks_length[OF assms(1)] by simp
  have "xss ! p ! j = take s (drop (p * s) (concat xss)) ! j"
    using concat_equal_chunks[OF assms(1,2)] by simp
  also have "\<dots> = drop (p * s) (concat xss) ! j" using assms(3) by simp
  also have "\<dots> = concat xss ! (p * s + j)" using len by simp
  finally show ?thesis by simp
qed

lemma local_slice_length:
  "p < sp \<Longrightarrow> length xs = sp * s \<Longrightarrow> length (local_slice s p xs) = s"
proof -
  assume a: "p < sp" "length xs = sp * s"
  then have "Suc p * s \<le> sp * s" by (metis Suc_leI mult_le_mono1)
  then have "p * s + s \<le> length xs" using a by simp
  then show ?thesis by (simp add: local_slice_def)
qed

lemma local_slice_nth:
  "p < sp \<Longrightarrow> length xs = sp * s \<Longrightarrow> j < s \<Longrightarrow> local_slice s p xs ! j = xs ! (p * s + j)"
proof -
  assume a: "p < sp" "length xs = sp * s" "j < s"
  then have "Suc p * s \<le> sp * s" by (metis Suc_leI mult_le_mono1)
  then have "p * s + s \<le> length xs" using a by simp
  then show ?thesis using a(3) by (simp add: local_slice_def)
qed

lemma shard_fn_in_range:
  assumes "length k = 1" "length v = 1" "0 < P" "p < P"
    and "0 \<le> cur" "cur < 2147483648" "int (P * (L div P)) < 2147483648"
    and "local_slice (L div P) p ck \<noteq> []" "local_slice (L div P) p cv \<noteq> []"
  shows "shard_fn L P p (local_slice (L div P) p ck) (local_slice (L div P) p cv) k v cur =
         Inr (shard_result (L div P) p ck (last k) cur, shard_result (L div P) p cv (last v) cur)"
proof -
  let ?s = "L div P"
  have "p * ?s \<le> P * ?s" using assms(4) by simp
  then have "int (p * ?s) \<le> int (P * ?s)" by (rule iffD2[OF of_nat_le_iff])
  then have "int (p * ?s) < 2147483648" using assms(7) by linarith
  then have b: "int p * int ?s < 2147483648" "0 \<le> int p * int ?s"
    by simp_all
  have w1: "wrap32 (int p * int ?s) = int p * int ?s"
    by (rule wrap32_id) (use b in linarith)+
  have w2: "wrap32 (cur - int p * int ?s) = cur - int p * int ?s"
    by (rule wrap32_id) (use b assms(5,6) in linarith)+
  have e: "int ((p + 1) * ?s) = int p * int ?s + int ?s" by (simp add: algebra_simps)
  show ?thesis
    using assms(1,2,3,8,9) unfolding shard_fn_def shard_result_def Let_def w1 w2 e
    by auto
qed

lemma shard_result_length:
  "p < P \<Longrightarrow> length xs = P * s \<Longrightarrow> length (shard_result s p xs tok cur) = s"
  by (simp add: shard_result_def local_slice_length)

lemma shard_map_fn_result:
  assumes "length k = 1" "length v = 1" "0 < P" "0 < s"
    and "length ck = P * s" "length cv = P * s"
    and "0 \<le> cur" "cur < 2147483648" "int (P * s) < 2147483648"
  shows "shard_map_fn P ck cv k v cur =
         Inr (concat (map (\<lambda>p. shard_result s p ck (last k) cur) [0..<P]),
              concat (map (\<lambda>p. shard_result s p cv (last v) cur) [0..<P]))"
proof -
  have s: "length ck div P = s" "length cv div P = s" using assms(3,5,6) by simp_all
  have "map (\<lambda>p. shard_fn (length ck) P p (local_slice s p ck) (local_slice s p cv) k v cur) [0..<P]
      = map Inr (map (\<lambda>p. (shard_result s p ck (last k) cur, shard_result s p cv (last v) cur)) [0..<P])"
    unfolding map_map
  proof (rule map_cong[OF refl])
    fix p assume "p \<in> set [0..<P]"
    then have p: "p < P" by simp
    have b: "int (P * (length ck div P)) < 2147483648" using assms(9) s by simp
    have "length (local_slice s p ck) = s" "length (local_slice s p cv) = s"
      using p assms(5,6) by (simp_all add: local_slice_length)
    then have ne: "local_slice (length ck div P) p ck \<noteq> []"
        "local_slice (length ck div P) p cv \<noteq> []"
      using assms(4) s by auto
    from shard_fn_in_range[OF assms(1,2,3) p assms(7,8) b ne]
    show "shard_fn (length ck) P p (local_slice s p ck) (local_slice s p cv) k v cur =
          (Inr \<circ> (\<lambda>p. (shard_result s p ck (last k) cur, shard_result s p cv (last v) cur))) p"
      using s by simp
  qed
  then have "collect_shards (map (\<lambda>p. shard_fn (length ck) P p (local_slice s p ck)
                 (local_slice s p cv) k v cur) [0..<P])
      = Inr (concat (map (\<lambda>p. shard_result s p ck (last k) cur) [0..<P]),
             concat (map (\<lambda>p. shard_result s p cv (last v) cur) [0..<P]))"
    by (simp only: collect_shards_Inr) (simp add: comp_def)
  moreover have "length ck mod P = 0" "length cv mod P = 0" using assms(5,6) by simp_all
  ultimately show ?thesis
    using assms(3) s by (simp add: shard_map_fn_def Let_def)
qed

text \<open>The per-device writes together are one write into the whole tensor.\<close>

lemma sharded_write_is_global:
  assumes "length xs = P * s" "0 \<le> cur"
  shows "concat (map (\<lambda>p. shard_result s p xs tok cur) [0..<P]) = xs[nat cur := tok]"
proof (rule nth_equalityI)
  let ?g = "\<lambda>p. shard_result s p xs tok cur"
  let ?xss = "map ?g [0..<P]"
  have all: "\<forall>ys \<in> set ?xss. length ys = s"
    using assms(1) by (auto simp: shard_result_length)
  have len: "length (concat ?xss) = P * s"
    using concat_chunks_length[OF all] by simp
  show "length (concat ?xss) = length (xs[nat cur := tok])"
    using len assms(1) by simp
  fix i assume "i < length (concat ?xss)"
  then have i: "i < P * s" using len by simp
  then have s: "0 < s" by (cases s) simp_all
  define p where "p = i div s"
  define j where "j = i mod s"
  have p: "p < P" using i s unfolding p_def by (simp add: less_mult_imp_div_less mult.commute)
  have j: "j < s" using s unfolding j_def by simp
  have ij: "i = p * s + j" unfolding p_def j_def by simp
  have "concat ?xss ! i = ?xss ! p ! j"
    unfolding ij using all p j by (intro concat_chunks_nth) simp_all
  also have "\<dots> = ?g p ! j" using p by simp
  also have "\<dots> = xs[nat cur := tok] ! i"
  proof (cases "int (p * s) \<le> cur \<and> cur < int ((p + 1) * s)")
    case True
    then have c: "nat cur = p * s + nat (cur - int (p * s))" by linarith
    have "?g p = (local_slice s p xs)[nat (cur - int (p * s)) := tok]"
      unfolding shard_result_def using True by (rule if_P)
    then have "?g p ! j = (local_slice s p xs)[nat (cur - int (p * s)) := tok] ! j" by simp
    also have "\<dots> = (if j = nat (cur - int (p * s)) then tok else local_slice s p xs ! j)"
      using j p assms(1) by (simp add: local_slice_length nth_list_update)
    also have "\<dots> = (if i = nat cur then tok else xs ! i)"
      using c ij local_slice_nth[OF p assms(1) j] by auto
    also have "\<dots> = xs[nat cur := tok] ! i"
      using i assms(1) by (simp add: nth_list_update)
    finally show ?thesis .
  next
    case False
    have ne: "i \<noteq> nat cur"
    proof
      assume "i = nat cur"
      then have "int i = cur" using assms(2) by simp
      then have "cur = int (p * s) + int j" using ij by simp
      moreover have "int ((p + 1) * s) = int (p * s) + int s" by (simp add: algebra_simps)
      ultimately have "int (p * s) \<le> cur \<and> cur < int ((p + 1) * s)" using j by linarith
      with False show False by simp
    qed
    have "?g p = local_slice s p xs" unfolding shard_result_def using False by (rule if_not_P)
    then have "?g p ! j = local_slice s p xs ! j" by simp
    also have "\<dots> = xs ! i" using local_slice_nth[OF p assms(1) j] ij by simp
    also have "\<dots> = xs[nat cur := tok] ! i" using ne by simp
    finally show ?thesis .
  qed
  finally show "concat ?xss ! i = xs[nat cur := tok] ! i" .
qed

subsection \<open>The sharded single-token update\<close>

text \<open>
  Claim C3. On the sharded path (one new token, \<open>use_sharded_kv_caching\<close>, no
  quantization), with the \<open>max_length\<close> positions split over \<open>P\<close> devices into ranges of
  \<open>sp_size = max_length / P\<close> positions, at least one each, the call succeeds and the
  merged tensors are stored; the slice of device \<open>p\<close> of the stored key and value is the
  slice from before the call when the cursor lies outside
  \<open>[p * sp_size, (p + 1) * sp_size)\<close>, and is that slice with the new token written at
  local offset \<open>cursor - p * sp_size\<close> when the cursor lies inside.
\<close>

theorem sharded_append_local_write:
  assumes "use_sharded_kv_caching cfg" "\<not> quantize_kv_cache cfg" "mesh_sp cfg = P" "0 < P"
    and "0 < sp_size" "length key_in = 1" "length value_in = 1"
    and "length (cached_key c) = P * sp_size" "length (cached_value c) = P * sp_size"
    and "0 \<le> cache_index c" "cache_index c < 2147483648" "int (P * sp_size) < 2147483648"
    and "p < P"
  shows "\<exists>c' k v m.
           concatenate_to_cache cfg store (Some c) key_in value_in 1 attention_mask
             = Inr (c', k, v, m)
         \<and> cached_key c' = k \<and> cached_value c' = v
         \<and> (if int (p * sp_size) \<le> cache_index c \<and> cache_index c < int ((p + 1) * sp_size)
            then local_slice sp_size p k =
                   (local_slice sp_size p (cached_key c))
                     [nat (cache_index c - int (p * sp_size)) := last key_in]
               \<and> local_slice sp_size p v =
                   (local_slice sp_size p (cached_value c))
                     [nat (cache_index c - int (p * sp_size)) := last value_in]
            else local_slice sp_size p k = local_slice sp_size p (cached_key c)
               \<and> local_slice sp_size p v = local_slice sp_size p (cached_value c))"
proof -
  let ?ks = "map (\<lambda>q. shard_result sp_size q (cached_key c) (last key_in) (cache_index c)) [0..<P]"
  let ?vs = "map (\<lambda>q. shard_result sp_size q (cached_value c) (last value_in) (cache_index c)) [0..<P]"
  have sm: "shard_map_fn P (cached_key c) (cached_value c) key_in value_in (cache_index c)
              = Inr (concat ?ks, concat ?vs)"
    by (rule shard_map_fn_result[OF assms(6,7,4,5,8,9,10,11,12)])
  have call: "concatenate_to_cache cfg store (Some c) key_in value_in 1 attention_mask
        = Inr (\<lparr>cached_key = concat ?ks, cached_value = concat ?vs,
                 cache_index = wrap32 (cache_index c + 1)\<rparr>, concat ?ks, concat ?vs, attention_mask)"
    using assms(1,2,3) sm by (simp add: concatenate_to_cache_def Let_def)
  have "\<forall>xs \<in> set ?ks. length xs = sp_size"
    using assms(8) by (auto simp: shard_result_length)
  then have k: "local_slice sp_size p (concat ?ks)
                  = shard_result sp_size p (cached_key c) (last key_in) (cache_index c)"
    unfolding local_slice_def using assms(13) by (subst concat_equal_chunks) simp_all
  have "\<forall>xs \<in> set ?vs. length xs = sp_size"
    using assms(9) by (auto simp: shard_result_length)
  then have v: "local_slice sp_size p (concat ?vs)
                  = shard_result sp_size p (cached_value c) (last value_in) (cache_index c)"
    unfolding local_slice_def using assms(13) by (subst concat_equal_chunks) simp_all
  show ?thesis
    unfolding call using k v by (simp add: shard_result_def)
qed

theorem sharded_append_local_write_witness:
  "\<exists>c' k v m.
     concatenate_to_cache
       \<lparr>quantize_kv_cache = False, use_sharded_kv_caching = True, mesh_sp = 4\<rparr> (\<lambda>x. x)
       (Some \<lparr>cached_key = [10, 11, 12, 13, 14, 15, 16, 17, 18, 19, 20, 21, 22, 23, 24, 25 :: int],
              cached_value = [30, 31, 32, 33, 34, 35, 36, 37, 38, 39, 40, 41, 42, 43, 44, 45],
              cache_index = 5\<rparr>)
       [77] [99] 1 [[True]] = Inr (c', k, v, m)
     \<and> cached_key c' = k \<and> cached_value c' = v
     \<and> local_slice 4 1 k = [14, 77, 16, 17] \<and> local_slice 4 1 v = [34, 99, 36, 37]"
  using sharded_append_local_write
    [where cfg = "\<lparr>quantize_kv_cache = False, use_sharded_kv_caching = True, mesh_sp = 4\<rparr>"
       and P = 4 and sp_size = 4 and p = 1 and key_in = "[77]" and value_in = "[99]"
       and c = "\<lparr>cached_key = [10, 11, 12, 13, 14, 15, 16, 17, 18, 19, 20, 21, 22, 23, 24, 25 :: int],
          cached_value = [30, 31, 32, 33, 34, 35, 36, 37, 38, 39, 40, 41, 42, 43, 44, 45],
          cache_index = 5\<rparr>" and store = "\<lambda>x. x" and attention_mask = "[[True]]"]
  by (simp add: local_slice_def)

text \<open>
  Claim C10. On the sharded path the returned attention mask is the one passed in: every
  successful call returns it unchanged, and a call on a well-formed slot, with at least
  one position on every device, succeeds. The witness also runs the same call with
  \<open>use_sharded_kv_caching\<close> off, where the returned mask is the conjunction with the pad
  mask.
\<close>

theorem sharded_append_mask_unchanged:
  assumes "use_sharded_kv_caching cfg" "\<not> quantize_kv_cache cfg"
  shows "(\<forall>c' k v m.
            concatenate_to_cache cfg store (Some c) key_in value_in 1 attention_mask
              = Inr (c', k, v, m) \<longrightarrow> m = attention_mask)
       \<and> (0 < mesh_sp cfg \<and> 0 < sp_size \<and> length key_in = 1 \<and> length value_in = 1
            \<and> length (cached_key c) = mesh_sp cfg * sp_size
            \<and> length (cached_value c) = mesh_sp cfg * sp_size
            \<and> 0 \<le> cache_index c \<and> cache_index c < 2147483648
            \<and> int (mesh_sp cfg * sp_size) < 2147483648
          \<longrightarrow> (\<exists>c' k v.
                 concatenate_to_cache cfg store (Some c) key_in value_in 1 attention_mask
                   = Inr (c', k, v, attention_mask)))"
proof (intro conjI allI impI)
  fix c' k v m
  assume "concatenate_to_cache cfg store (Some c) key_in value_in 1 attention_mask
            = Inr (c', k, v, m)"
  then show "m = attention_mask"
    using assms by (auto simp: concatenate_to_cache_def Let_def split: sum.splits)
next
  assume wf: "0 < mesh_sp cfg \<and> 0 < sp_size \<and> length key_in = 1 \<and> length value_in = 1
            \<and> length (cached_key c) = mesh_sp cfg * sp_size
            \<and> length (cached_value c) = mesh_sp cfg * sp_size
            \<and> 0 \<le> cache_index c \<and> cache_index c < 2147483648
            \<and> int (mesh_sp cfg * sp_size) < 2147483648"
  then have "\<exists>ks vs. shard_map_fn (mesh_sp cfg) (cached_key c) (cached_value c) key_in value_in
                 (cache_index c) = Inr (ks, vs)"
    using shard_map_fn_result[where k = key_in and v = value_in and P = "mesh_sp cfg"
        and s = sp_size and ck = "cached_key c" and cv = "cached_value c"
        and cur = "cache_index c"] by blast
  then show "\<exists>c' k v. concatenate_to_cache cfg store (Some c) key_in value_in 1 attention_mask
                   = Inr (c', k, v, attention_mask)"
    using assms by (auto simp: concatenate_to_cache_def Let_def)
qed

theorem sharded_append_mask_unchanged_witness:
  "(\<exists>c' k v.
      concatenate_to_cache
        \<lparr>quantize_kv_cache = False, use_sharded_kv_caching = True, mesh_sp = 2\<rparr> (\<lambda>x. x)
        (Some \<lparr>cached_key = [10, 11, 12, 13 :: int], cached_value = [30, 31, 32, 33],
               cache_index = 1\<rparr>)
        [77] [99] 1 [[True, True, True, True]] = Inr (c', k, v, [[True, True, True, True]]))
   \<and> concatenate_to_cache
        \<lparr>quantize_kv_cache = False, use_sharded_kv_caching = False, mesh_sp = 2\<rparr> (\<lambda>x. x)
        (Some \<lparr>cached_key = [10, 11, 12, 13 :: int], cached_value = [30, 31, 32, 33],
               cache_index = 1\<rparr>)
        [77] [99] 1 [[True, True, True, True]]
      = Inr (\<lparr>cached_key = [10, 77, 12, 13], cached_value = [30, 99, 32, 33], cache_index = 2\<rparr>,
             [10, 77, 12, 13], [30, 99, 32, 33], [[True, True, False, False]])"
proof -
  have "\<exists>c' k v.
      concatenate_to_cache
        \<lparr>quantize_kv_cache = False, use_sharded_kv_caching = True, mesh_sp = 2\<rparr> (\<lambda>x. x)
        (Some \<lparr>cached_key = [10, 11, 12, 13 :: int], cached_value = [30, 31, 32, 33],
               cache_index = 1\<rparr>)
        [77] [99] 1 [[True, True, True, True]] = Inr (c', k, v, [[True, True, True, True]])"
    using sharded_append_mask_unchanged
      [where cfg = "\<lparr>quantize_kv_cache = False, use_sharded_kv_caching = True, mesh_sp = 2\<rparr>"
         and store = "\<lambda>x. x"
         and c = "\<lparr>cached_key = [10, 11, 12, 13 :: int], cached_value = [30, 31, 32, 33],
            cache_index = 1\<rparr>" and key_in = "[77]" and value_in = "[99]"
         and attention_mask = "[[True, True, True, True]]" and sp_size = 2]
    by simp
  moreover have "concatenate_to_cache
        \<lparr>quantize_kv_cache = False, use_sharded_kv_caching = False, mesh_sp = 2\<rparr> (\<lambda>x. x)
        (Some \<lparr>cached_key = [10, 11, 12, 13 :: int], cached_value = [30, 31, 32, 33],
               cache_index = 1\<rparr>)
        [77] [99] 1 [[True, True, True, True]]
      = Inr (\<lparr>cached_key = [10, 77, 12, 13], cached_value = [30, 99, 32, 33], cache_index = 2\<rparr>,
             [10, 77, 12, 13], [30, 99, 32, 33], [[True, True, False, False]])"
    by code_simp
  ultimately show ?thesis by (rule conjI)
qed

subsection \<open>The update of the whole cache\<close>

text \<open>
  The first call on a module without cache variables creates the empty slot and hands
  its arguments back.
\<close>

lemma first_call_creates_slot:
  "length key_in = L \<Longrightarrow> length value_in = L
     \<Longrightarrow> concatenate_to_cache cfg store None key_in value_in n attention_mask
           = Inr (init_cache cfg store L, key_in, value_in, attention_mask)"
  by (simp add: concatenate_to_cache_def init_cache_def Let_def)

lemma map2_replicate_left:
  "length ys = n \<Longrightarrow> map2 f (replicate n x) ys = map (f x) ys"
  by (induction ys arbitrary: n) auto

lemma dynamic_update_slice_fits:
  assumes "0 \<le> i" "i + int (length u) \<le> int (length xs)"
  shows "dynamic_update_slice xs u i = Inr (take (nat i) xs @ u @ drop (nat i + length u) xs)"
proof -
  have "min i (int (length xs) - int (length u)) = i" using assms by simp
  moreover have "length u \<le> length xs" using assms by linarith
  ultimately show ?thesis using assms(1) by (simp add: dynamic_update_slice_def Let_def)
qed

lemma combine_pad_mask:
  assumes "length m = n" "\<forall>row \<in> set m. length row = L"
  shows "combine_masks (pad_mask L cur n) m =
         Inr (map (\<lambda>row. map2 (\<lambda>a b. a \<and> b)
                (map (\<lambda>i. int i < wrap32 (cur + int n)) [0..<L]) row) m)"
proof -
  have "map length m = map (\<lambda>row. L) m"
    using assms(2) by (intro map_cong) simp_all
  then have "map length m = replicate n L"
    using assms(1) by (simp add: map_replicate_const)
  then show ?thesis
    using assms(1) by (simp add: combine_masks_def pad_mask_def map2_replicate_left)
qed

lemma merged_length:
  "0 \<le> i \<Longrightarrow> i + int (length u) \<le> int (length xs) \<Longrightarrow> length (merged xs u i) = length xs"
  by (auto simp: merged_def)

lemma merged_below: "int j < i \<Longrightarrow> i \<le> int (length xs) \<Longrightarrow> merged xs u i ! j = xs ! j"
  by (auto simp: merged_def nth_append)

lemma merged_new:
  "0 \<le> i \<Longrightarrow> i \<le> int (length xs) \<Longrightarrow> j < length u \<Longrightarrow> merged xs u i ! (nat i + j) = u ! j"
  by (auto simp: merged_def nth_append)

lemma merged_single:
  assumes "length u = 1" "0 \<le> i" "i < int (length xs)"
  shows "merged xs u i = xs[nat i := last u]"
proof -
  obtain t where u: "u = [t]" using assms(1) by (cases u) auto
  have "nat i < length xs" using assms(2,3) by linarith
  then show ?thesis
    unfolding u merged_def by (simp add: upd_conv_take_nth_drop)
qed

text \<open>
  One call that fits, on either path: the tensors are merged at the cursor, stored
  (through the quantizer when \<open>quantize_kv_cache\<close> is on), and the cursor advances; the
  mask is combined with the pad mask except on the sharded path.
\<close>

lemma append_step:
  assumes "int L < 2147483648"
    and "use_sharded_kv_caching cfg \<and> \<not> quantize_kv_cache cfg
           \<longrightarrow> 0 < mesh_sp cfg \<and> mesh_sp cfg dvd L"
    and "length key_in = n" "length value_in = n"
    and "length (cached_key c) = L" "length (cached_value c) = L"
    and "0 \<le> cache_index c" "cache_index c + int n \<le> int L"
    and "length m = n" "\<forall>row \<in> set m. length row = L"
  shows "concatenate_to_cache cfg store (Some c) key_in value_in n m =
         Inr (\<lparr>cached_key = (if quantize_kv_cache cfg then store else (\<lambda>x. x))
                               (merged (cached_key c) key_in (cache_index c)),
               cached_value = (if quantize_kv_cache cfg then store else (\<lambda>x. x))
                               (merged (cached_value c) value_in (cache_index c)),
               cache_index = cache_index c + int n\<rparr>,
              merged (cached_key c) key_in (cache_index c),
              merged (cached_value c) value_in (cache_index c),
              if n = 1 \<and> use_sharded_kv_caching cfg \<and> \<not> quantize_kv_cache cfg then m
              else map (\<lambda>row. map2 (\<lambda>a b. a \<and> b)
                     (map (\<lambda>i. int i < cache_index c + int n) [0..<L]) row) m)"
proof (cases "n = 1 \<and> use_sharded_kv_caching cfg \<and> \<not> quantize_kv_cache cfg")
  case True
  let ?P = "mesh_sp cfg"
  let ?s = "L div ?P"
  have P: "0 < ?P" "?P dvd L" using True assms(2) by simp_all
  then have Ls: "L = ?P * ?s" by simp
  have cur: "cache_index c < int L" using True assms(8) by simp
  then have "0 < L" using assms(7) by linarith
  then have s: "0 < ?s" using P by (metis Ls mult_is_0 neq0_conv) 
  have w: "wrap32 (cache_index c + 1) = cache_index c + 1"
    by (rule wrap32_id) (use assms(1,7) cur in linarith)+
  have lk: "length key_in = 1" "length value_in = 1" using True assms(3,4) by simp_all
  have b: "cache_index c < 2147483648" "int (?P * ?s) < 2147483648"
    using cur assms(1) Ls by simp_all
  have ck: "length (cached_key c) = ?P * ?s" "length (cached_value c) = ?P * ?s"
    using assms(5,6) Ls by simp_all
  have "shard_map_fn ?P (cached_key c) (cached_value c) key_in value_in (cache_index c) =
          Inr (concat (map (\<lambda>p. shard_result ?s p (cached_key c) (last key_in) (cache_index c))
                 [0..<?P]),
               concat (map (\<lambda>p. shard_result ?s p (cached_value c) (last value_in)
                 (cache_index c)) [0..<?P]))"
    by (rule shard_map_fn_result[OF lk P(1) s ck assms(7) b])
  also have "\<dots> = Inr ((cached_key c)[nat (cache_index c) := last key_in],
                       (cached_value c)[nat (cache_index c) := last value_in])"
    using sharded_write_is_global[OF ck(1) assms(7)] sharded_write_is_global[OF ck(2) assms(7)]
    by simp
  also have "\<dots> = Inr (merged (cached_key c) key_in (cache_index c),
                       merged (cached_value c) value_in (cache_index c))"
    using merged_single[OF lk(1) assms(7), of "cached_key c"]
      merged_single[OF lk(2) assms(7), of "cached_value c"] cur assms(5,6) by simp
  finally show ?thesis
    using True w by (simp add: concatenate_to_cache_def Let_def)
next
  case False
  have w: "wrap32 (cache_index c + int n) = cache_index c + int n"
    by (rule wrap32_id) (use assms(1,7,8) in linarith)+
  have k: "dynamic_update_slice (cached_key c) key_in (cache_index c)
             = Inr (merged (cached_key c) key_in (cache_index c))"
    unfolding merged_def using assms(3,5,7,8) by (intro dynamic_update_slice_fits) simp_all
  have v: "dynamic_update_slice (cached_value c) value_in (cache_index c)
             = Inr (merged (cached_value c) value_in (cache_index c))"
    unfolding merged_def using assms(4,6,7,8) by (intro dynamic_update_slice_fits) simp_all
  have p: "combine_masks (pad_mask L (cache_index c) n) m =
         Inr (map (\<lambda>row. map2 (\<lambda>a b. a \<and> b)
                (map (\<lambda>i. int i < cache_index c + int n) [0..<L]) row) m)"
    using combine_pad_mask[OF assms(9,10), of "cache_index c"] unfolding w .
  show ?thesis
    using False assms(5) by (auto simp add: concatenate_to_cache_def Let_def k v p w)
qed

lemma appends_cursor:
  assumes "int L < 2147483648"
    and "use_sharded_kv_caching cfg \<and> \<not> quantize_kv_cache cfg
           \<longrightarrow> 0 < mesh_sp cfg \<and> mesh_sp cfg dvd L"
    and "quantize_kv_cache cfg \<longrightarrow> (\<forall>xs. length (store xs) = length xs)"
  shows "length (cached_key c) = L \<Longrightarrow> length (cached_value c) = L \<Longrightarrow> 0 \<le> cache_index c
     \<Longrightarrow> list_all (well_shaped L) calls
     \<Longrightarrow> cache_index c + int (new_tokens calls) \<le> int L
     \<Longrightarrow> \<exists>c'. appends cfg store c calls = Inr c'
            \<and> length (cached_key c') = L \<and> length (cached_value c') = L
            \<and> cache_index c' = cache_index c + int (new_tokens calls)"
proof (induction calls arbitrary: c)
  case Nil
  then show ?case by (simp add: new_tokens_def)
next
  case (Cons call calls)
  obtain k v n m where call: "call = (k, v, n, m)" by (cases call) auto
  from Cons.prems(4) call have ws: "length k = n" "length v = n" "length m = n"
      "\<forall>row \<in> set m. length row = L" and rest: "list_all (well_shaped L) calls"
    by (simp_all add: well_shaped_def list_all_iff)
  from Cons.prems(5) call
  have fit: "cache_index c + int n + int (new_tokens calls) \<le> int L"
    by (simp add: new_tokens_def)
  then have fit1: "cache_index c + int n \<le> int L" by linarith
  let ?st = "if quantize_kv_cache cfg then store else (\<lambda>x. x)"
  let ?c = "\<lparr>cached_key = ?st (merged (cached_key c) k (cache_index c)),
              cached_value = ?st (merged (cached_value c) v (cache_index c)),
              cache_index = cache_index c + int n\<rparr>"
  have st: "length (?st xs) = length xs" for xs using assms(3) by simp
  note step = append_step[OF assms(1,2) ws(1,2) Cons.prems(1,2,3) fit1 ws(3,4), of store]
  have "\<exists>c'. appends cfg store ?c calls = Inr c'
            \<and> length (cached_key c') = L \<and> length (cached_value c') = L
            \<and> cache_index c' = cache_index ?c + int (new_tokens calls)"
  proof (rule Cons.IH)
    show "length (cached_key ?c) = L"
      using Cons.prems(1,3) ws(1) fit1 st by (simp add: merged_length)
    show "length (cached_value ?c) = L"
      using Cons.prems(2,3) ws(2) fit1 st by (simp add: merged_length)
    show "0 \<le> cache_index ?c" using Cons.prems(3) by simp
    show "list_all (well_shaped L) calls" by (rule rest)
    show "cache_index ?c + int (new_tokens calls) \<le> int L" using fit by simp
  qed
  then show ?case
    unfolding call appends.simps step by (auto simp: new_tokens_def)
qed

lemma dynamic_update_slice_clamped:
  assumes "0 \<le> i" "length u \<le> length xs"
  shows "dynamic_update_slice xs u i =
         Inr (merged xs u (min i (int (length xs) - int (length u))))"
  using assms by (simp add: dynamic_update_slice_def Let_def merged_def max_absorb2)

text \<open>
  Claim C4 does not hold as it stands: on the sharded path (sharded caching on, one new
  token, no quantization) the mask comes back as it went in. After the first token on an
  empty slot of four positions every key position is still marked valid, not only the
  one below the new cursor.
\<close>

theorem appends_mask_counterexample:
  "concatenate_to_cache
     \<lparr>quantize_kv_cache = False, use_sharded_kv_caching = True, mesh_sp = 2\<rparr> (\<lambda>x. x)
     (Some (init_cache \<lparr>quantize_kv_cache = False, use_sharded_kv_caching = True, mesh_sp = 2\<rparr>
              (\<lambda>x. x) 4))
     [7 :: int] [17] 1 [[True, True, True, True]]
   = Inr (\<lparr>cached_key = [7, 0, 0, 0], cached_value = [17, 0, 0, 0], cache_index = 1\<rparr>,
          [7, 0, 0, 0], [17, 0, 0, 0], [[True, True, True, True]])"
  by code_simp

text \<open>
  Claim C4, as the code has it, for every configuration (with sharded caching the mesh
  divides the slot evenly; with quantization the stored tensors keep their shape). After
  any session of well-shaped calls from the empty slot of \<open>L\<close> positions, a further call
  of \<open>n\<close> new positions that still fits succeeds. The cursor before it is the number of
  positions appended so far and after it is \<open>n\<close> more. The merged key and value it
  returns hold, at every position below the old cursor, what the cache held there, and
  at the \<open>n\<close> positions from the old cursor on the new keys and values; they are what is
  stored, through the quantizer when \<open>quantize_kv_cache\<close> is on. The returned mask is the
  incoming mask on the sharded path, and on the other path it is, entry by entry, the
  incoming mask restricted to the key positions below the new cursor.
\<close>

theorem appends_advance_cursor:
  assumes "int L < 2147483648"
    and "use_sharded_kv_caching cfg \<and> \<not> quantize_kv_cache cfg
           \<longrightarrow> 0 < mesh_sp cfg \<and> mesh_sp cfg dvd L"
    and "quantize_kv_cache cfg \<longrightarrow> (\<forall>xs. length (store xs) = length xs)"
    and "list_all (well_shaped L) calls" "well_shaped L (key_in, value_in, n, attention_mask)"
    and "new_tokens calls + n \<le> L"
  shows "\<exists>c c' k v m.
           appends cfg store (init_cache cfg store L) calls = Inr c
         \<and> cache_index c = int (new_tokens calls)
         \<and> concatenate_to_cache cfg store (Some c) key_in value_in n attention_mask
             = Inr (c', k, v, m)
         \<and> cache_index c' = cache_index c + int n
         \<and> cached_key c' = (if quantize_kv_cache cfg then store k else k)
         \<and> cached_value c' = (if quantize_kv_cache cfg then store v else v)
         \<and> length k = L \<and> length v = L
         \<and> (\<forall>i. int i < cache_index c \<longrightarrow>
                k ! i = cached_key c ! i \<and> v ! i = cached_value c ! i)
         \<and> (\<forall>j < n. k ! (nat (cache_index c) + j) = key_in ! j
                   \<and> v ! (nat (cache_index c) + j) = value_in ! j)
         \<and> (if n = 1 \<and> use_sharded_kv_caching cfg \<and> \<not> quantize_kv_cache cfg
            then m = attention_mask
            else length m = n
               \<and> (\<forall>r < n. length (m ! r) = L
                     \<and> (\<forall>i < L. m ! r ! i
                           = (int i < cache_index c + int n \<and> attention_mask ! r ! i))))"
proof -
  have ws: "length key_in = n" "length value_in = n" "length attention_mask = n"
      "\<forall>row \<in> set attention_mask. length row = L"
    using assms(5) by (simp_all add: well_shaped_def list_all_iff)
  let ?i = "init_cache cfg store L :: 'a cache"
  have i: "length (cached_key ?i) = L" "length (cached_value ?i) = L" "cache_index ?i = 0"
    using assms(3) by (simp_all add: init_cache_def Let_def)
  have "\<exists>c. appends cfg store ?i calls = Inr c
            \<and> length (cached_key c) = L \<and> length (cached_value c) = L
            \<and> cache_index c = cache_index ?i + int (new_tokens calls)"
    using assms(6) i by (intro appends_cursor[OF assms(1,2,3)] assms(4)) simp_all
  then obtain c where c: "appends cfg store ?i calls = Inr c"
      "length (cached_key c) = L" "length (cached_value c) = L"
      "cache_index c = int (new_tokens calls)"
    using i(3) by auto
  have nonneg: "0 \<le> cache_index c" using c(4) by simp
  have fit: "cache_index c + int n \<le> int L" using c(4) assms(6) by simp
  let ?k = "merged (cached_key c) key_in (cache_index c)"
  let ?v = "merged (cached_value c) value_in (cache_index c)"
  let ?m = "if n = 1 \<and> use_sharded_kv_caching cfg \<and> \<not> quantize_kv_cache cfg
            then attention_mask
            else map (\<lambda>row. map2 (\<lambda>a b. a \<and> b)
                (map (\<lambda>i. int i < cache_index c + int n) [0..<L]) row) attention_mask"
  let ?c = "\<lparr>cached_key = (if quantize_kv_cache cfg then store else (\<lambda>x. x)) ?k,
              cached_value = (if quantize_kv_cache cfg then store else (\<lambda>x. x)) ?v,
              cache_index = cache_index c + int n\<rparr>"
  have step: "concatenate_to_cache cfg store (Some c) key_in value_in n attention_mask
                = Inr (?c, ?k, ?v, ?m)"
    by (rule append_step[OF assms(1,2) ws(1,2) c(2,3) nonneg fit ws(3,4)])
  have sel: "cache_index ?c = cache_index c + int n"
      "cached_key ?c = (if quantize_kv_cache cfg then store ?k else ?k)"
      "cached_value ?c = (if quantize_kv_cache cfg then store ?v else ?v)"
    by simp_all
  have len: "length ?k = L" "length ?v = L"
    using c(2,3) ws(1,2) nonneg fit by (simp_all add: merged_length)
  have below: "\<forall>i. int i < cache_index c \<longrightarrow>
                ?k ! i = cached_key c ! i \<and> ?v ! i = cached_value c ! i"
    using c(2,3) fit by (simp add: merged_below)
  have new: "\<forall>j < n. ?k ! (nat (cache_index c) + j) = key_in ! j
                   \<and> ?v ! (nat (cache_index c) + j) = value_in ! j"
    using c(2,3) ws(1,2) nonneg fit by (simp add: merged_new)
  have mask: "if n = 1 \<and> use_sharded_kv_caching cfg \<and> \<not> quantize_kv_cache cfg
            then ?m = attention_mask
            else length ?m = n
               \<and> (\<forall>r < n. length (?m ! r) = L
                     \<and> (\<forall>i < L. ?m ! r ! i
                           = (int i < cache_index c + int n \<and> attention_mask ! r ! i)))"
    using ws(3,4) by simp
  show ?thesis
    by (intro exI conjI) (rule c(1) c(4) step sel len below new mask)+
qed

theorem appends_advance_cursor_witness:
  "(\<exists>c c' k v m.
      appends \<lparr>quantize_kv_cache = False, use_sharded_kv_caching = True, mesh_sp = 2\<rparr>
        (\<lambda>x. x)
        (init_cache \<lparr>quantize_kv_cache = False, use_sharded_kv_caching = True, mesh_sp = 2\<rparr>
           (\<lambda>x. x) 6)
        [([7], [17], 1, [replicate 6 True]), ([8], [18], 1, [replicate 6 True])]
        = Inr c
    \<and> cache_index c = 2
    \<and> concatenate_to_cache
        \<lparr>quantize_kv_cache = False, use_sharded_kv_caching = True, mesh_sp = 2\<rparr> (\<lambda>x. x)
        (Some c) [9 :: int, 10] [19, 20] 2
        [[True, False, True, True, True, True], [True, True, True, True, True, False]]
        = Inr (c', k, v, m)
    \<and> cache_index c' = 4 \<and> cached_key c' = k \<and> cached_value c' = v
    \<and> k ! 0 = cached_key c ! 0 \<and> k ! 1 = cached_key c ! 1 \<and> k ! 2 = 9 \<and> k ! 3 = 10
    \<and> v ! 0 = cached_value c ! 0 \<and> v ! 1 = cached_value c ! 1 \<and> v ! 2 = 19 \<and> v ! 3 = 20
    \<and> m ! 0 ! 0 \<and> \<not> m ! 0 ! 1 \<and> m ! 0 ! 3 \<and> \<not> m ! 0 ! 4 \<and> m ! 1 ! 3 \<and> \<not> m ! 1 ! 4)
   \<and> appends \<lparr>quantize_kv_cache = False, use_sharded_kv_caching = True, mesh_sp = 2\<rparr>
        (\<lambda>x. x)
        (init_cache \<lparr>quantize_kv_cache = False, use_sharded_kv_caching = True, mesh_sp = 2\<rparr>
           (\<lambda>x. x) 6)
        [([7], [17], 1, [replicate 6 True]), ([8], [18], 1, [replicate 6 True]),
         ([9 :: int, 10], [19, 20], 2,
          [[True, False, True, True, True, True], [True, True, True, True, True, False]])]
      = Inr \<lparr>cached_key = [7, 8, 9, 10, 0, 0], cached_value = [17, 18, 19, 20, 0, 0],
             cache_index = 4\<rparr>"
proof -
  let ?cfg = "\<lparr>quantize_kv_cache = False, use_sharded_kv_caching = True, mesh_sp = 2\<rparr>"
  let ?calls = "[([7 :: int], [17 :: int], 1 :: nat, [replicate 6 True]),
                 ([8], [18], 1, [replicate 6 True])]"
  let ?mask = "[[True, False, True, True, True, True], [True, True, True, True, True, False]]"
  have p: "int 6 < 2147483648"
      "use_sharded_kv_caching ?cfg \<and> \<not> quantize_kv_cache ?cfg
         \<longrightarrow> 0 < mesh_sp ?cfg \<and> mesh_sp ?cfg dvd 6"
      "quantize_kv_cache ?cfg \<longrightarrow> (\<forall>xs :: int list. length ((\<lambda>x. x) xs) = length xs)"
      "list_all (well_shaped 6) ?calls"
      "well_shaped 6 ([9 :: int, 10], [19 :: int, 20], 2, ?mask)" "new_tokens ?calls + 2 \<le> 6"
    by (simp_all add: well_shaped_def new_tokens_def)
  from appends_advance_cursor[where cfg = ?cfg and L = 6 and calls = ?calls
      and key_in = "[9, 10]" and value_in = "[19, 20]" and n = 2 and attention_mask = ?mask
      and store = "\<lambda>x. x", OF p]
  obtain c c' k v m where
    h: "appends ?cfg (\<lambda>x. x) (init_cache ?cfg (\<lambda>x. x) 6) ?calls = Inr c"
      "cache_index c = int (new_tokens ?calls)"
      "concatenate_to_cache ?cfg (\<lambda>x. x) (Some c) [9, 10] [19, 20] 2 ?mask = Inr (c', k, v, m)"
      "cache_index c' = cache_index c + int 2"
      "cached_key c' = (if quantize_kv_cache ?cfg then (\<lambda>x. x) k else k)"
      "cached_value c' = (if quantize_kv_cache ?cfg then (\<lambda>x. x) v else v)"
      "\<forall>i. int i < cache_index c \<longrightarrow> k ! i = cached_key c ! i \<and> v ! i = cached_value c ! i"
      "\<forall>j < 2. k ! (nat (cache_index c) + j) = [9, 10] ! j
             \<and> v ! (nat (cache_index c) + j) = [19, 20] ! j"
      "if 2 = (1 :: nat) \<and> use_sharded_kv_caching ?cfg \<and> \<not> quantize_kv_cache ?cfg
       then m = ?mask
       else length m = 2
          \<and> (\<forall>r < 2. length (m ! r) = 6
                \<and> (\<forall>i < 6. m ! r ! i = (int i < cache_index c + int 2 \<and> ?mask ! r ! i)))"
    by (elim exE conjE) (rule that; assumption)
  have cur: "cache_index c = 2" using h(2) by (simp add: new_tokens_def)
  have k0: "k ! 0 = cached_key c ! 0 \<and> v ! 0 = cached_value c ! 0"
    using cur h(7) by simp
  have k1: "k ! 1 = cached_key c ! 1 \<and> v ! 1 = cached_value c ! 1"
    using cur h(7) by simp
  have k2: "k ! 2 = 9 \<and> v ! 2 = 19" using cur h(8)[rule_format, of 0] by simp
  have k3: "k ! 3 = 10 \<and> v ! 3 = 20" using cur h(8)[rule_format, of 1] by simp
  have mm: "\<forall>r < 2. \<forall>i < 6. m ! r ! i = (int i < 4 \<and> ?mask ! r ! i)"
    using cur h(9) by simp
  have m: "m ! 0 ! 0" "\<not> m ! 0 ! 1" "m ! 0 ! 3" "\<not> m ! 0 ! 4" "m ! 1 ! 3" "\<not> m ! 1 ! 4"
    using mm[rule_format, of 0 0] mm[rule_format, of 0 1] mm[rule_format, of 0 3]
      mm[rule_format, of 0 4] mm[rule_format, of 1 3] mm[rule_format, of 1 4]
    by simp_all
  have c': "cache_index c' = 4" "cached_key c' = k" "cached_value c' = v"
    using cur h(4,5,6) by simp_all
  have run: "appends ?cfg (\<lambda>x. x) (init_cache ?cfg (\<lambda>x. x) 6)
        (?calls @ [([9 :: int, 10], [19, 20], 2, ?mask)])
      = Inr \<lparr>cached_key = [7, 8, 9, 10, 0, 0], cached_value = [17, 18, 19, 20, 0, 0],
             cache_index = 4\<rparr>"
    by code_simp
  have "\<exists>c c' k v m.
      appends ?cfg (\<lambda>x. x) (init_cache ?cfg (\<lambda>x. x) 6) ?calls = Inr c
    \<and> cache_index c = 2
    \<and> concatenate_to_cache ?cfg (\<lambda>x. x) (Some c) [9 :: int, 10] [19, 20] 2 ?mask
        = Inr (c', k, v, m)
    \<and> cache_index c' = 4 \<and> cached_key c' = k \<and> cached_value c' = v
    \<and> k ! 0 = cached_key c ! 0 \<and> k ! 1 = cached_key c ! 1 \<and> k ! 2 = 9 \<and> k ! 3 = 10
    \<and> v ! 0 = cached_value c ! 0 \<and> v ! 1 = cached_value c ! 1 \<and> v ! 2 = 19 \<and> v ! 3 = 20
    \<and> m ! 0 ! 0 \<and> \<not> m ! 0 ! 1 \<and> m ! 0 ! 3 \<and> \<not> m ! 0 ! 4 \<and> m ! 1 ! 3 \<and> \<not> m ! 1 ! 4"
    using k0 k1 k2 k3
    by (intro exI conjI) (rule h(1) cur h(3) c' m | simp)+
  then show ?thesis using run by simp
qed

text \<open>
  Claim C1 does not hold: on a full slot of 16 positions the call for a 17th token
  raises nothing. It overwrites position 15 and moves the cursor to 17.
\<close>

theorem append_beyond_capacity_counterexample:
  "concatenate_to_cache
     \<lparr>quantize_kv_cache = False, use_sharded_kv_caching = False, mesh_sp = 1\<rparr> (\<lambda>x. x)
     (Some \<lparr>cached_key = [1, 2, 3, 4, 5, 6, 7, 8, 9, 10, 11, 12, 13, 14, 15, 16 :: int],
            cached_value = [21, 22, 23, 24, 25, 26, 27, 28, 29, 30, 31, 32, 33, 34, 35, 36],
            cache_index = 16\<rparr>)
     [17] [37] 1 [replicate 16 True]
   = Inr (\<lparr>cached_key = [1, 2, 3, 4, 5, 6, 7, 8, 9, 10, 11, 12, 13, 14, 15, 17],
           cached_value = [21, 22, 23, 24, 25, 26, 27, 28, 29, 30, 31, 32, 33, 34, 35, 37],
           cache_index = 17\<rparr>,
          [1, 2, 3, 4, 5, 6, 7, 8, 9, 10, 11, 12, 13, 14, 15, 17],
          [21, 22, 23, 24, 25, 26, 27, 28, 29, 30, 31, 32, 33, 34, 35, 37],
          [replicate 16 True])"
  by code_simp

text \<open>
  Claim C1, as the code has it. The method never checks the capacity. On the path that
  updates the whole cache, a call with at most \<open>max_length\<close> new positions succeeds
  whatever the cursor, writes them from position \<open>min cursor (max_length - n)\<close> on and
  adds \<open>n\<close> to the cursor; so the cursor stays within \<open>max_length\<close> exactly when
  \<open>cursor + n\<close> was, and a call beyond the capacity overwrites the last \<open>n\<close>
  positions.
\<close>

theorem append_never_checks_capacity:
  assumes "\<not> (n = 1 \<and> use_sharded_kv_caching cfg \<and> \<not> quantize_kv_cache cfg)"
    and "length key_in = n" "length value_in = n" "n \<le> L"
    and "length (cached_key c) = L" "length (cached_value c) = L"
    and "0 \<le> cache_index c" "cache_index c + int n < 2147483648"
    and "length attention_mask = n" "list_all (\<lambda>row. length row = L) attention_mask"
  shows "\<exists>c' k v m.
           concatenate_to_cache cfg store8 (Some c) key_in value_in n attention_mask
             = Inr (c', k, v, m)
         \<and> cache_index c' = cache_index c + int n
         \<and> (cache_index c' \<le> int L) = (cache_index c + int n \<le> int L)
         \<and> k = take (nat (min (cache_index c) (int L - int n))) (cached_key c) @ key_in
                 @ drop (nat (min (cache_index c) (int L - int n)) + n) (cached_key c)
         \<and> v = take (nat (min (cache_index c) (int L - int n))) (cached_value c) @ value_in
                 @ drop (nat (min (cache_index c) (int L - int n)) + n) (cached_value c)
         \<and> (int L < cache_index c + int n \<longrightarrow>
              k = take (L - n) (cached_key c) @ key_in
            \<and> v = take (L - n) (cached_value c) @ value_in)"
proof -
  let ?s = "min (cache_index c) (int L - int n)"
  have w: "wrap32 (cache_index c + int n) = cache_index c + int n"
    by (rule wrap32_id) (use assms(7,8) in linarith)+
  have k: "dynamic_update_slice (cached_key c) key_in (cache_index c)
             = Inr (merged (cached_key c) key_in ?s)"
    using dynamic_update_slice_clamped[of "cache_index c" key_in "cached_key c"] assms(2,4,5,7)
    by simp
  have v: "dynamic_update_slice (cached_value c) value_in (cache_index c)
             = Inr (merged (cached_value c) value_in ?s)"
    using dynamic_update_slice_clamped[of "cache_index c" value_in "cached_value c"] assms(3,4,6,7)
    by simp
  have rows: "\<forall>row \<in> set attention_mask. length row = L"
    using assms(10) by (simp add: list_all_iff)
  note p = combine_pad_mask[OF assms(9) rows, of "cache_index c"]
  let ?store = "if quantize_kv_cache cfg then store8 else (\<lambda>x. x)"
  have call: "concatenate_to_cache cfg store8 (Some c) key_in value_in n attention_mask =
      Inr (\<lparr>cached_key = ?store (merged (cached_key c) key_in ?s),
            cached_value = ?store (merged (cached_value c) value_in ?s),
            cache_index = cache_index c + int n\<rparr>,
           merged (cached_key c) key_in ?s, merged (cached_value c) value_in ?s,
           map (\<lambda>row. map2 (\<lambda>a b. a \<and> b)
                (map (\<lambda>i. int i < wrap32 (cache_index c + int n)) [0..<L]) row) attention_mask)"
    using assms(1,5) by (auto simp add: concatenate_to_cache_def Let_def k v p w)
  have over: "int L < cache_index c + int n \<longrightarrow>
      merged (cached_key c) key_in ?s = take (L - n) (cached_key c) @ key_in
    \<and> merged (cached_value c) value_in ?s = take (L - n) (cached_value c) @ value_in"
  proof
    assume "int L < cache_index c + int n"
    then have "?s = int L - int n" by simp
    moreover have "nat (int L - int n) = L - n" by simp
    ultimately show "merged (cached_key c) key_in ?s = take (L - n) (cached_key c) @ key_in
    \<and> merged (cached_value c) value_in ?s = take (L - n) (cached_value c) @ value_in"
      using assms(2,3,4,5,6) by (simp add: merged_def)
  qed
  show ?thesis
    unfolding call using over assms(2,3) by (simp add: merged_def)
qed

theorem append_never_checks_capacity_witness:
  "\<exists>c' k v m.
     concatenate_to_cache
       \<lparr>quantize_kv_cache = False, use_sharded_kv_caching = False, mesh_sp = 1\<rparr> (\<lambda>x. x)
       (Some \<lparr>cached_key = [1, 2, 3, 4 :: int], cached_value = [21, 22, 23, 24],
              cache_index = 3\<rparr>)
       [5, 6] [25, 26] 2 [[True, True, True, True], [True, True, True, True]]
       = Inr (c', k, v, m)
     \<and> cache_index c' = 5 \<and> k = [1, 2, 5, 6] \<and> v = [21, 22, 25, 26]"
  using append_never_checks_capacity
    [of 2 "\<lparr>quantize_kv_cache = False, use_sharded_kv_caching = False, mesh_sp = 1\<rparr>"
        "[5, 6]" "[25, 26]" 4
        "\<lparr>cached_key = [1, 2, 3, 4 :: int], cached_value = [21, 22, 23, 24], cache_index = 3\<rparr>"
        "[[True, True, True, True], [True, True, True, True]]" "\<lambda>x. x"]
  by auto

section \<open>Properties of the quantization codec\<close>

text \<open>
  Claim C5 does not hold: the floor of \<open>1e-5\<close> is put on the row's absolute maximum
  before the division by 127, so the scale of an all-zero row is \<open>1e-5 / 127\<close>, below
  \<open>1e-5\<close> (here in exact arithmetic, for a row of the dtype of the arithmetic).
\<close>

theorem quantize_8bit_scale_counterexample:
  "quantize_8bit \<lparr>rnd = id, astype_x = id, nan_int8 = 0\<rparr> [0] = Inr ([0], 1 / 12700000)
   \<and> (1 / 12700000 :: real) < 1 / 100000"
  by (simp add: quantize_8bit_def jnp_round_def clip_def)

text \<open>
  Claim C5, as the code has it, whatever the rounding of the device and the dtype of the
  input. For every row with at least one entry the floor of \<open>1e-5\<close> holds for the
  clipped absolute maximum \<open>max_val\<close>, not for the scale: the scale the quantize path
  divides by is the rounded quotient of \<open>max_val\<close> by 127, and the scale returned is that
  quotient converted to the dtype of the input. If the rounded quotient of a number that
  is at least the floor by 127 is positive, the divisor is positive, so that
  \<open>1.0 / qscale\<close> is no division by zero and every entry is quantized by the finite
  formula. The witness is a row of integers, whose returned scale is 0.
\<close>

theorem quantize_8bit_scale_floor:
  assumes "x \<noteq> []"
    and "\<forall>a. rnd A (1 / 100000) \<le> a \<longrightarrow> 0 < rnd A (a / 127)"
  shows "\<exists>max_val qscale.
           max_val = max (Max (set (map (\<lambda>e. \<bar>rnd A e\<bar>) x))) (rnd A (1 / 100000))
         \<and> rnd A (1 / 100000) \<le> max_val
         \<and> qscale = rnd A (max_val / 127) \<and> 0 < qscale
         \<and> quantize_8bit A x =
             Inr (map (\<lambda>e. clip (jnp_round (rnd A (rnd A e * rnd A (1 / qscale)))) (- 128) 127) x,
                  astype_x A qscale)"
proof -
  let ?m = "max (Max (set (map (\<lambda>e. \<bar>rnd A e\<bar>) x))) (rnd A (1 / 100000))"
  let ?q = "rnd A (?m / 127)"
  have a: "rnd A (1 / 100000) \<le> ?m" by simp
  then have pos: "0 < ?q" using assms(2) by blast
  then have "?q \<noteq> 0" by simp
  then have q: "quantize_8bit A x =
             Inr (map (\<lambda>e. clip (jnp_round (rnd A (rnd A e * rnd A (1 / ?q)))) (- 128) 127) x,
                  astype_x A ?q)"
    using assms(1) by (simp add: quantize_8bit_def Let_def)
  show ?thesis
    by (intro exI conjI) (rule refl a pos q)+
qed

theorem quantize_8bit_scale_floor_witness:
  "\<exists>(max_val :: real) (qscale :: real).
     max_val = 3 \<and> 1 / 100000 \<le> max_val \<and> qscale = 3 / 127 \<and> 0 < qscale
   \<and> quantize_8bit \<lparr>rnd = id, astype_x = (\<lambda>r. of_int \<lfloor>r\<rfloor>), nan_int8 = 0\<rparr> [3, - 1]
       = Inr ([127, - 42], 0)"
proof -
  let ?A = "\<lparr>rnd = id, astype_x = (\<lambda>r. real_of_int \<lfloor>r\<rfloor>), nan_int8 = 0\<rparr>"
  have p: "[3, - 1 :: real] \<noteq> []"
      "\<forall>a. rnd ?A (1 / 100000) \<le> a \<longrightarrow> 0 < rnd ?A (a / 127)"
    by simp_all
  from quantize_8bit_scale_floor[where A = ?A and x = "[3, - 1]", OF p]
  obtain max_val qscale where
    h: "max_val = max (Max (set (map (\<lambda>e. \<bar>rnd ?A e\<bar>) [3, - 1]))) (rnd ?A (1 / 100000))"
       "rnd ?A (1 / 100000) \<le> max_val" "qscale = rnd ?A (max_val / 127)" "0 < qscale"
       "quantize_8bit ?A [3, - 1] =
             Inr (map (\<lambda>e. clip (jnp_round (rnd ?A (rnd ?A e * rnd ?A (1 / qscale)))) (- 128) 127)
                    [3, - 1], astype_x ?A qscale)"
    by (elim exE conjE) (rule that; assumption)
  have m: "max_val = 3" using h(1) by simp
  have q: "qscale = 3 / 127" using h(3) m by simp
  have r: "jnp_round (- (127 / 3)) = - 42" "jnp_round 127 = 127"
    by (simp_all add: jnp_round_def Let_def)
  have "quantize_8bit ?A [3, - 1] = Inr ([127, - 42], 0)"
    unfolding h(5) q using r by (simp add: clip_def)
  then show ?thesis
    by (intro exI[of _ "3 :: real"] exI[of _ "3 / 127 :: real"]) simp
qed

section \<open>Properties of the flash-attention dispatcher\<close>

text \<open>
  Claim C9. A dispatcher constructed from a configuration is that configuration when the
  pair of its backend and platform is one of the six of the table, and the construction
  raises \<open>ValueError\<close> otherwise, that is for exactly the three remaining pairs; the
  construction without a configuration takes the backend JAX runs on with its default
  platform and always succeeds. No kernel is called by the construction.
\<close>

theorem new_FlashAttention_table:
  "new_FlashAttention runtime (Some cfg) =
     (if (backend cfg, platform cfg) \<in>
           {(GPU, TRITON), (GPU, PALLAS), (GPU, JAX), (CPU, JAX), (TPU, JAX), (TPU, PALLAS)}
      then Inr cfg else Inl ValueError)
   \<and> (new_FlashAttention runtime (Some cfg) = Inl ValueError) =
       ((backend cfg, platform cfg) \<in> {(CPU, TRITON), (CPU, PALLAS), (TPU, TRITON)})
   \<and> new_FlashAttention runtime None =
       Inr \<lparr>blocksize_q = 128, blocksize_k = 128, softmax_scale = None,
            backend = runtime, platform = default_platform runtime\<rparr>"
proof (intro conjI)
  show "new_FlashAttention runtime (Some cfg) =
     (if (backend cfg, platform cfg) \<in>
           {(GPU, TRITON), (GPU, PALLAS), (GPU, JAX), (CPU, JAX), (TPU, JAX), (TPU, PALLAS)}
      then Inr cfg else Inl ValueError)"
    by (simp add: new_FlashAttention_def validate_config_def valid_combinations_def)
  show "(new_FlashAttention runtime (Some cfg) = Inl ValueError) =
       ((backend cfg, platform cfg) \<in> {(CPU, TRITON), (CPU, PALLAS), (TPU, TRITON)})"
    by (cases "backend cfg"; cases "platform cfg")
       (simp_all add: new_FlashAttention_def validate_config_def valid_combinations_def)
  show "new_FlashAttention runtime None =
       Inr \<lparr>blocksize_q = 128, blocksize_k = 128, softmax_scale = None,
            backend = runtime, platform = default_platform runtime\<rparr>"
    by (cases runtime)
       (simp_all add: new_FlashAttention_def new_AttentionConfig_def validate_config_def
          valid_combinations_def)
qed

subsection \<open>Repetition of the key and value heads\<close>

lemma repeat_heads_length: "length (repeat_heads xs r) = length xs * r"
  by (induction xs) (simp_all add: repeat_heads_def)

lemma repeat_heads_nth: "i < length xs * r \<Longrightarrow> repeat_heads xs r ! i = xs ! (i div r)"
proof (induction xs arbitrary: i)
  case Nil
  then show ?case by simp
next
  case (Cons x xs)
  have r: "0 < r" using Cons.prems by (cases r) simp_all
  show ?case
  proof (cases "i < r")
    case True
    then show ?thesis by (simp add: repeat_heads_def nth_append)
  next
    case False
    then have "i - r < length xs * r" using Cons.prems by simp
    then have "repeat_heads xs r ! (i - r) = xs ! ((i - r) div r)" by (rule Cons.IH)
    moreover have "i div r = Suc ((i - r) div r)"
      using False r by (simp add: le_div_geq)
    ultimately show ?thesis using False by (simp add: repeat_heads_def nth_append)
  qed
qed

text \<open>
  Claim C6 does not hold on the Triton platform: with 32 query heads and 8 key/value
  heads (and \<open>FORCE_MHA\<close> not set) the dispatcher calls the grouped-query kernel with the
  8 key and value heads as they are, repeated by no factor.
\<close>

theorem FlashAttention_call_gqa_counterexample:
  "FlashAttention_call
     \<lparr>blocksize_q = 128, blocksize_k = 128, softmax_scale = None, backend = GPU,
      platform = TRITON\<rparr>
     None (replicate 32 (0 :: nat)) [1, 2, 3, 4, 5, 6, 7, 8] [11, 12, 13, 14, 15, 16, 17, 18]
     (None :: nat list option)
   = Inr \<lparr>kernel_name = triton_flash_gqa_attn_2_gpu, arg_query = replicate 32 0,
          arg_key = [1, 2, 3, 4, 5, 6, 7, 8], arg_value = [11, 12, 13, 14, 15, 16, 17, 18],
          arg_bias = None\<rparr>"
  by (simp add: FlashAttention_call_def handle_bias_def compute_triton_def force_mha_def)

text \<open>
  Claim C6, as the code has it. For tensors with at least one key head: when the number
  of query heads is not a multiple of the number of key heads the call raises
  \<open>ValueError\<close> and calls no kernel. When it is, and the bias is accepted, one kernel is
  called with the query as it is; on the Triton platform with differing head counts and
  \<open>FORCE_MHA\<close> not set this is the grouped-query kernel with the key and value heads as
  they are; in every other case the key and value heads are repeated by the factor
  \<open>q_heads // kv_heads\<close>, every head next to its copies, to as many heads as the query
  has.
\<close>

theorem FlashAttention_call_heads:
  assumes "0 < length key_in"
  shows "(length query mod length key_in \<noteq> 0 \<longrightarrow>
            FlashAttention_call config env query key_in value_in bias = Inl ValueError)
       \<and> (length query mod length key_in = 0 \<longrightarrow>
            handle_bias bias (length query) (length key_in) = Inr bias' \<longrightarrow>
            (\<exists>call. FlashAttention_call config env query key_in value_in bias = Inr call
               \<and> arg_query call = query \<and> arg_bias call = bias'
               \<and> (if platform config = TRITON \<and> length query \<noteq> length key_in
                       \<and> \<not> force_mha env
                   then kernel_name call = triton_flash_gqa_attn_2_gpu
                      \<and> arg_key call = key_in \<and> arg_value call = value_in
                   else kernel_name call \<noteq> triton_flash_gqa_attn_2_gpu
                      \<and> arg_key call = repeat_heads key_in (length query div length key_in)
                      \<and> arg_value call = repeat_heads value_in (length query div length key_in)
                      \<and> length (arg_key call) = length query
                      \<and> (\<forall>i < length query.
                            arg_key call ! i = key_in ! (i div (length query div length key_in))))))"
proof (intro conjI impI)
  assume "length query mod length key_in \<noteq> 0"
  then show "FlashAttention_call config env query key_in value_in bias = Inl ValueError"
    using assms by (simp add: FlashAttention_call_def)
next
  assume d: "length query mod length key_in = 0"
    and b: "handle_bias bias (length query) (length key_in) = Inr bias'"
  let ?r = "length query div length key_in"
  have len: "length key_in * ?r = length query" using d by auto
  then have l: "length (repeat_heads key_in ?r) = length query"
    by (simp add: repeat_heads_length)
  have n: "\<forall>i < length query. repeat_heads key_in ?r ! i = key_in ! (i div ?r)"
    using len by (simp add: repeat_heads_nth)
  show "\<exists>call. FlashAttention_call config env query key_in value_in bias = Inr call
               \<and> arg_query call = query \<and> arg_bias call = bias'
               \<and> (if platform config = TRITON \<and> length query \<noteq> length key_in
                       \<and> \<not> force_mha env
                   then kernel_name call = triton_flash_gqa_attn_2_gpu
                      \<and> arg_key call = key_in \<and> arg_value call = value_in
                   else kernel_name call \<noteq> triton_flash_gqa_attn_2_gpu
                      \<and> arg_key call = repeat_heads key_in ?r
                      \<and> arg_value call = repeat_heads value_in ?r
                      \<and> length (arg_key call) = length query
                      \<and> (\<forall>i < length query. arg_key call ! i = key_in ! (i div ?r)))"
    using assms d b l n
    by (cases "platform config")
       (auto simp: FlashAttention_call_def compute_triton_def compute_pallas_def compute_jax_def
          repeat_kv_heads_def Let_def)
qed

theorem FlashAttention_call_heads_witness:
  "FlashAttention_call
     \<lparr>blocksize_q = 128, blocksize_k = 128, softmax_scale = None, backend = TPU,
      platform = PALLAS\<rparr>
     None (replicate 30 (0 :: nat)) [1, 2, 3, 4, 5, 6, 7, 8 :: nat]
     [11, 12, 13, 14, 15, 16, 17, 18] (None :: nat list option) = Inl ValueError
   \<and> (\<exists>call. FlashAttention_call
        \<lparr>blocksize_q = 128, blocksize_k = 128, softmax_scale = None, backend = TPU,
         platform = PALLAS\<rparr>
        None (replicate 32 (0 :: nat)) [1, 2, 3, 4, 5, 6, 7, 8 :: nat]
        [11, 12, 13, 14, 15, 16, 17, 18] (None :: nat list option) = Inr call
      \<and> kernel_name call = pallas_flash_attention_tpu
      \<and> arg_key call = [1, 1, 1, 1, 2, 2, 2, 2, 3, 3, 3, 3, 4, 4, 4, 4,
                         5, 5, 5, 5, 6, 6, 6, 6, 7, 7, 7, 7, 8, 8, 8, 8])"
proof -
  let ?cfg = "\<lparr>blocksize_q = 128, blocksize_k = 128, softmax_scale = None, backend = TPU,
      platform = PALLAS\<rparr>"
  let ?k = "[1, 2, 3, 4, 5, 6, 7, 8 :: nat]"
  let ?v = "[11, 12, 13, 14, 15, 16, 17, 18 :: nat]"
  have pos: "0 < length ?k" by simp
  have a: "FlashAttention_call ?cfg None (replicate 30 (0 :: nat)) ?k ?v (None :: nat list option)
             = Inl ValueError"
    using FlashAttention_call_heads[OF pos, of "replicate 30 (0 :: nat)" ?cfg None ?v None None]
    by simp
  have "\<exists>call. FlashAttention_call ?cfg None (replicate 32 (0 :: nat)) ?k ?v
                  (None :: nat list option) = Inr call
      \<and> kernel_name call = pallas_flash_attention_tpu
      \<and> arg_key call = repeat_heads ?k 4"
    using FlashAttention_call_heads[OF pos, of "replicate 32 (0 :: nat)" ?cfg None ?v None None]
    by (auto simp: handle_bias_def FlashAttention_call_def compute_pallas_def repeat_kv_heads_def Let_def)
  moreover have "repeat_heads ?k 4 = [1, 1, 1, 1, 2, 2, 2, 2, 3, 3, 3, 3, 4, 4, 4, 4,
                         5, 5, 5, 5, 6, 6, 6, 6, 7, 7, 7, 7, 8, 8, 8, 8]"
    by code_simp
  ultimately show ?thesis using a by simp
qed

section \<open>Properties of the splash strategy\<close>




end
